theory Spec2Isabelle
  imports Complex_Main "HOL-Library.Word"
begin

section \<open>JavaScript strings\<close>

text \<open>
  A JavaScript string is a sequence of UTF-16 code units; \<open>length\<close>, \<open>substring\<close>,
  \<open>startsWith\<close>, \<open>includes\<close>, \<open>split\<close> and \<open>trim\<close> all work on code units. A code unit
  is modelled by its number, and a literal of the source by the numbers of its (ASCII)
  characters.
\<close>

type_synonym jsstr = "nat list"

abbreviation js :: "string \<Rightarrow> jsstr" where
  "js s \<equiv> map of_char s"

text \<open>\<open>s.substring(0, n)\<close>\<close>

definition substring0 :: "jsstr \<Rightarrow> nat \<Rightarrow> jsstr" where
  "substring0 s n = take n s"

text \<open>\<open>s.startsWith(p)\<close> and \<open>s.includes(sub)\<close>\<close>

definition startsWith :: "jsstr \<Rightarrow> jsstr \<Rightarrow> bool" where
  "startsWith s p = (take (length p) s = p)"

fun includes' :: "jsstr \<Rightarrow> jsstr \<Rightarrow> bool" where
  "includes' [] sub = (sub = [])"
| "includes' (c # cs) sub = (startsWith (c # cs) sub \<or> includes' cs sub)"

text \<open>
  The code units that \<open>trim\<close> strips and that the regular expression class \<open>\s\<close>
  matches: ECMAScript's WhiteSpace and LineTerminator (TAB, LF, VT, FF, CR, SPACE, NBSP,
  U+1680, U+2000 to U+200A, U+2028, U+2029, U+202F, U+205F, U+3000 and U+FEFF).
\<close>

definition is_ws :: "nat \<Rightarrow> bool" where
  "is_ws c = (c \<in> set [9, 10, 11, 12, 13, 32, 160, 5760, 8232, 8233, 8239, 8287, 12288, 65279]
              \<or> (8192 \<le> c \<and> c \<le> 8202))"

definition trim :: "jsstr \<Rightarrow> jsstr" where
  "trim s = rev (dropWhile is_ws (rev (dropWhile is_ws s)))"

text \<open>
  \<open>s.split(/\s+/)\<close>: the pieces between the maximal runs of whitespace; a string with
  no whitespace (the empty string too) is its own single piece.
\<close>

function split_ws :: "jsstr \<Rightarrow> jsstr list" where
  "split_ws s =
     (case dropWhile (\<lambda>c. \<not> is_ws c) s of
        [] \<Rightarrow> [s]
      | _ # r \<Rightarrow> takeWhile (\<lambda>c. \<not> is_ws c) s # split_ws (dropWhile is_ws r))"
  by pat_completeness auto
termination
proof (relation "measure length")
  show "wf (measure length)" by simp
next
  fix s :: jsstr and x r
  assume d: "dropWhile (\<lambda>c. \<not> is_ws c) s = x # r"
  have "length (dropWhile is_ws r) \<le> length r"
    by (rule length_dropWhile_le)
  moreover have "length (x # r) \<le> length s"
    unfolding d [symmetric] by (rule length_dropWhile_le)
  ultimately show "(dropWhile is_ws r, s) \<in> measure length"
    by simp
qed

declare split_ws.simps [simp del]

text \<open>\<open>s.split(",")\<close>: the pieces between the occurrences of one separator code unit.\<close>

fun split_on :: "nat \<Rightarrow> jsstr \<Rightarrow> jsstr list" where
  "split_on sep [] = [[]]"
| "split_on sep (c # cs) =
     (if c = sep then [] # split_on sep cs
      else (case split_on sep cs of [] \<Rightarrow> [[c]] | p # ps \<Rightarrow> (c # p) # ps))"

text \<open>\<open>xs[i]\<close> on an array: \<open>undefined\<close> (here \<open>None\<close>) out of range.\<close>

fun index :: "'a list \<Rightarrow> nat \<Rightarrow> 'a option" where
  "index [] i = None"
| "index (x # xs) 0 = Some x"
| "index (x # xs) (Suc i) = index xs i"

text \<open>
  \<open>n.toString()\<close> for an integral number below \<open>10^21\<close> in magnitude (every value of
  \<open>Date.now()\<close> is): the decimal digits, after a minus sign when negative.
\<close>

fun digits :: "nat \<Rightarrow> jsstr" where
  "digits n = (if n < 10 then [48 + n] else digits (n div 10) @ [48 + n mod 10])"

declare digits.simps [simp del]

definition toString :: "int \<Rightarrow> jsstr" where
  "toString i = (if i < 0 then 45 # digits (nat (- i)) else digits (nat i))"

section \<open>Word count and estimated duration (page.tsx, lines 181 to 183)\<close>

text \<open>\<open>text.trim().split(/\s+/).filter(word => word.length > 0).length\<close>\<close>

definition wordCount :: "jsstr \<Rightarrow> nat" where
  "wordCount t = length (filter (\<lambda>word. length word > 0) (split_ws (trim t)))"

text \<open>
  \<open>Math.ceil(wordCount / 2.5)\<close>. The word count is an integer far below \<open>2^53\<close> and 2.5
  is a binary fraction, so the rounded quotient of the doubles has the ceiling of the
  exact quotient; the model computes with rationals.
\<close>

definition estimatedDuration :: "jsstr \<Rightarrow> int" where
  "estimatedDuration t = \<lceil>(of_nat (wordCount t) :: rat) / 2.5\<rceil>"

text \<open>
  The specification's count, written independently of the code: the number of maximal runs
  of non-whitespace code units, counted at the code unit that starts each run (a
  non-whitespace unit at the start of the text or right after a whitespace unit).
\<close>

fun count_starts :: "bool \<Rightarrow> jsstr \<Rightarrow> nat" where
  "count_starts prev [] = 0"
| "count_starts prev (c # cs) =
     (if \<not> is_ws c \<and> prev then 1 else 0) + count_starts (is_ws c) cs"

definition token_count :: "jsstr \<Rightarrow> nat" where
  "token_count t = count_starts True t"

section \<open>Base64 decoding\<close>

text \<open>
  \<open>window.atob\<close> is the browser's, not the repository's; it is modelled as the HTML
  standard defines it (forgiving-base64 decode): ASCII whitespace is removed; when the
  length is then a multiple of four, one or two trailing \<open>=\<close> are removed; a length that
  leaves remainder one, or a code unit outside the base64 alphabet, is a failure (an
  InvalidCharacterError); the sextets are packed into bytes and the bits left over from
  an incomplete group are discarded. The result is a binary string: one code unit below
  256 for each byte.
\<close>

definition b64_value :: "nat \<Rightarrow> nat option" where
  "b64_value c =
     (if 65 \<le> c \<and> c \<le> 90 then Some (c - 65)
      else if 97 \<le> c \<and> c \<le> 122 then Some (c - 71)
      else if 48 \<le> c \<and> c \<le> 57 then Some (c + 4)
      else if c = 43 then Some 62
      else if c = 47 then Some 63
      else None)"

fun b64_values :: "jsstr \<Rightarrow> nat list option" where
  "b64_values [] = Some []"
| "b64_values (c # cs) =
     (case b64_value c of
        None \<Rightarrow> None
      | Some v \<Rightarrow> (case b64_values cs of None \<Rightarrow> None | Some vs \<Rightarrow> Some (v # vs)))"

fun b64_bytes :: "nat list \<Rightarrow> nat list" where
  "b64_bytes (a # b # c # d # rest) =
     (a * 4 + b div 16) # ((b mod 16) * 16 + c div 4) # ((c mod 4) * 64 + d) # b64_bytes rest"
| "b64_bytes [a, b, c] = [a * 4 + b div 16, (b mod 16) * 16 + c div 4]"
| "b64_bytes [a, b] = [a * 4 + b div 16]"
| "b64_bytes _ = []"

definition strip_padding :: "jsstr \<Rightarrow> jsstr" where
  "strip_padding d =
     (if length d mod 4 = 0 then
        (case rev d of
           a # b # r \<Rightarrow> if a = 61 \<and> b = 61 then rev r else if a = 61 then rev (b # r) else d
         | _ \<Rightarrow> d)
      else d)"

definition atob :: "jsstr \<Rightarrow> jsstr option" where
  "atob data =
     (let d = strip_padding (filter (\<lambda>c. c \<notin> set [9, 10, 12, 13, 32]) data)
      in if length d mod 4 = 1 then None
         else map_option b64_bytes (b64_values d))"

section \<open>Provider responses\<close>

text \<open>
  A parsed JSON value; an object is the association list of its properties. A JavaScript
  value that may be \<open>undefined\<close> is a \<open>json option\<close>, with \<open>None\<close> for \<open>undefined\<close>.
\<close>

datatype json =
    JNull
  | JBool bool
  | JNum rat
  | JStr jsstr
  | JArr "json list"
  | JObj "(jsstr \<times> json) list"

text \<open>JavaScript truthiness, as \<open>&&\<close> and \<open>if\<close> test it.\<close>

fun truthy :: "json option \<Rightarrow> bool" where
  "truthy None = False"
| "truthy (Some JNull) = False"
| "truthy (Some (JBool b)) = b"
| "truthy (Some (JNum n)) = (n \<noteq> 0)"
| "truthy (Some (JStr s)) = (s \<noteq> [])"
| "truthy (Some (JArr xs)) = True"
| "truthy (Some (JObj kvs)) = True"

text \<open>
  \<open>v.name\<close> for the property names the code reads (\<open>choices\<close>, \<open>message\<close>, \<open>content\<close>):
  an object yields its property, or \<open>undefined\<close>; a string, number, boolean or array has
  no property of these names. On \<open>null\<close> the read throws a TypeError, which the caller
  models; the value here stands for a read that is never made.
\<close>

fun member :: "jsstr \<Rightarrow> json \<Rightarrow> json option" where
  "member k (JObj kvs) = map_of kvs k"
| "member k v = None"

text \<open>\<open>v[0]\<close>: the first element of an array, the first code unit of a string, the property \<open>"0"\<close> of an object.\<close>

fun elem0 :: "json \<Rightarrow> json option" where
  "elem0 (JObj kvs) = map_of kvs (js ''0'')"
| "elem0 (JArr xs) = index xs 0"
| "elem0 (JStr s) = map_option (\<lambda>c. JStr [c]) (index s 0)"
| "elem0 v = None"

record Blob =
  bytes :: "nat list"
  mime :: jsstr

text \<open>
  What the code observes of a \<open>fetch\<close> response: \<open>ok\<close>, \<open>status\<close>, the content-type
  header (\<open>None\<close> for \<open>null\<close>), the result of \<open>json()\<close> and the result of \<open>blob()\<close>
  (\<open>None\<close> when the promise rejects: a body that is not JSON, a broken stream).
\<close>

record response =
  ok :: bool
  status :: nat
  content_type :: "jsstr option"
  json_body :: "json option"
  blob_body :: "Blob option"

datatype error =
    NetworkError
  | HttpError nat
  | BodyError
  | TypeError
  | InvalidCharacterError
  | IndirectFetchFailed
  | UnexpectedFormat
  | NoAudioData
  | EmptyResponse

text \<open>\<open>contentType?.includes(sub)\<close>: falsy when the header is absent.\<close>

definition ct_includes :: "jsstr option \<Rightarrow> jsstr \<Rightarrow> bool" where
  "ct_includes ct sub = (case ct of None \<Rightarrow> False | Some s \<Rightarrow> includes' s sub)"

text \<open>
  The guard \<open>jsonResponse.choices && jsonResponse.choices[0] &&
  jsonResponse.choices[0].message\<close> on a value that is not \<open>null\<close>, and, when it holds,
  \<open>jsonResponse.choices[0].message.content\<close>. \<open>&&\<close> evaluates its right operand only when
  the left one is truthy, so no read is made on \<open>null\<close> or \<open>undefined\<close>. The result is
  \<open>None\<close> when the guard fails and \<open>Some message\<close> otherwise, where \<open>message\<close> may be
  \<open>undefined\<close>.
\<close>

definition envelope_message :: "json \<Rightarrow> json option option" where
  "envelope_message jsonResponse =
     (let choices = member (js ''choices'') jsonResponse;
          first = Option.bind choices elem0;
          msg = Option.bind first (member (js ''message''))
      in if truthy choices \<and> truthy first \<and> truthy msg
         then Some (Option.bind msg (member (js ''content'')))
         else None)"

text \<open>
  The data-URI branch, the same text in both files (page.tsx lines 121 to 127,
  VoiceSelector.tsx lines 139 to 145): \<open>message.split(",")[1]\<close> is handed to \<open>atob\<close>,
  which turns \<open>undefined\<close> into the string \<open>"undefined"\<close>; each code unit of the binary
  string is stored into a \<open>Uint8Array\<close>, which keeps it modulo 256.
\<close>

definition decode_data_uri :: "jsstr \<Rightarrow> error + Blob" where
  "decode_data_uri message =
     (let base64Data = index (split_on 44 message) 1 in
      case atob (case base64Data of None \<Rightarrow> js ''undefined'' | Some s \<Rightarrow> s) of
        None \<Rightarrow> Inl InvalidCharacterError
      | Some binaryString \<Rightarrow>
          Inr \<lparr>bytes = map (\<lambda>c. c mod 256) binaryString, mime = js ''audio/mpeg''\<rparr>)"

text \<open>\<open>await response.blob()\<close>\<close>

definition read_blob :: "response \<Rightarrow> error + Blob" where
  "read_blob r = (case blob_body r of None \<Rightarrow> Inl BodyError | Some b \<Rightarrow> Inr b)"

text \<open>
  The Response Decoder of the main generation (page.tsx, lines 110 to 150). \<open>fetch\<close> is the
  network as the indirect-URL branch sees it: \<open>None\<close> when the request rejects.
\<close>

definition decode_main :: "(jsstr \<Rightarrow> response option) \<Rightarrow> response \<Rightarrow> error + Blob" where
  "decode_main fetch r =
     (if ct_includes (content_type r) (js ''application/json'') then
        (case json_body r of
           None \<Rightarrow> Inl BodyError
         | Some jsonResponse \<Rightarrow>
             if jsonResponse = JNull then Inl TypeError
             else
               (case envelope_message jsonResponse of
                  None \<Rightarrow> Inl NoAudioData
                | Some message \<Rightarrow>
                    (case message of
                       Some (JStr m) \<Rightarrow>
                         if startsWith m (js ''data:audio'') then decode_data_uri m
                         else if startsWith m (js ''http'') \<or> startsWith m (js ''https'') then
                           (case fetch m of
                              None \<Rightarrow> Inl NetworkError
                            | Some audioResponse \<Rightarrow>
                                if ok audioResponse then read_blob audioResponse
                                else Inl IndirectFetchFailed)
                         else Inl UnexpectedFormat
                     | _ \<Rightarrow> Inl UnexpectedFormat)))
      else if ct_includes (content_type r) (js ''audio'') then read_blob r
      else
        (case read_blob r of
           Inl e \<Rightarrow> Inl e
         | Inr audioBlob \<Rightarrow>
             if length (bytes audioBlob) = 0 then Inl EmptyResponse else Inr audioBlob))"

text \<open>
  The decoding of the voice preview (VoiceSelector.tsx, lines 130 to 157), for a response
  whose \<open>ok\<close> was tested before. \<open>Inr None\<close> is the plain \<open>return\<close> of the preview
  (no audio to play); \<open>Inl\<close> is an exception, which the preview logs.
\<close>

definition decode_preview :: "(jsstr \<Rightarrow> response option) \<Rightarrow> response \<Rightarrow> error + Blob option" where
  "decode_preview fetch r =
     (if ct_includes (content_type r) (js ''application/json'') then
        (case json_body r of
           None \<Rightarrow> Inl BodyError
         | Some jsonResponse \<Rightarrow>
             if jsonResponse = JNull then Inl TypeError
             else
               (case envelope_message jsonResponse of
                  None \<Rightarrow> Inr None
                | Some message \<Rightarrow>
                    (case message of
                       Some (JStr m) \<Rightarrow>
                         if startsWith m (js ''data:audio'') then map_sum id Some (decode_data_uri m)
                         else if startsWith m (js ''http'') \<or> startsWith m (js ''https'') then
                           (case fetch m of
                              None \<Rightarrow> Inl NetworkError
                            | Some audioResponse \<Rightarrow> map_sum id Some (read_blob audioResponse))
                         else Inr None
                     | _ \<Rightarrow> Inr None)))
      else map_sum id Some (read_blob r))"

text \<open>The audio payload each decoding yields, \<open>None\<close> when it yields none.\<close>

definition payload_main :: "(jsstr \<Rightarrow> response option) \<Rightarrow> response \<Rightarrow> Blob option" where
  "payload_main fetch r = (case decode_main fetch r of Inl e \<Rightarrow> None | Inr b \<Rightarrow> Some b)"

definition payload_preview :: "(jsstr \<Rightarrow> response option) \<Rightarrow> response \<Rightarrow> Blob option" where
  "payload_preview fetch r = (case decode_preview fetch r of Inl e \<Rightarrow> None | Inr b \<Rightarrow> b)"

section \<open>The page state and one generation (page.tsx, lines 33 to 179)\<close>

record VoiceSettings =
  voice :: jsstr
  speed :: rat
  pitch :: rat
  stability :: rat
  clarity :: rat

text \<open>
  The fields \<open>id\<close>, \<open>text\<close> and \<open>voice\<close> of the source carry a prime here, since the
  plain names are taken. \<open>audioUrl\<close> is an object URL that stands for the decoded blob;
  the model keeps the blob itself. \<open>createdAt\<close> is a clock reading in milliseconds.
\<close>

record GeneratedAudio =
  id' :: jsstr
  text' :: jsstr
  voice' :: jsstr
  audioUrl :: Blob
  duration :: rat
  createdAt :: int
  settings :: VoiceSettings

text \<open>The parameters of one provider request (lines 79 to 86).\<close>

record request =
  req_text :: jsstr
  req_voice :: jsstr
  req_stability :: rat
  req_similarity_boost :: rat

text \<open>
  The React state of the page (\<open>input_text\<close> is the state variable \<open>text\<close>), and what
  the page has done to its environment: the provider requests it has issued, the number
  of interval timers it has started and not cleared, and the number of alerts it has
  shown.
\<close>

record page =
  input_text :: jsstr
  isGenerating :: bool
  generationProgress :: rat
  currentAudio :: "GeneratedAudio option"
  audioHistory :: "GeneratedAudio list"
  voiceSettings :: VoiceSettings
  requests :: "request list"
  intervals :: nat
  alerts :: nat

definition initial_page :: page where
  "initial_page =
     \<lparr>input_text = [], isGenerating = False, generationProgress = 0,
      currentAudio = None, audioHistory = [],
      voiceSettings = \<lparr>voice = js ''rachel'', speed = 1, pitch = 1, stability = 0.75, clarity = 0.75\<rparr>,
      requests = [], intervals = 0, alerts = 0\<rparr>"

text \<open>
  What the environment does during one generation: the values \<open>Math.random()\<close> returns
  in the callbacks of the interval that run before the provider call settles, the
  provider's answer (\<open>None\<close> when \<open>fetch\<close> rejects), the network for the indirect fetch,
  the duration the audio element reports when its metadata loads (\<open>None\<close> when the
  \<open>loadedmetadata\<close> event never comes), and the clock readings of \<open>Date.now()\<close> and
  \<open>new Date()\<close>.
\<close>

record env =
  randoms :: "rat list"
  provider :: "response option"
  fetch :: "jsstr \<Rightarrow> response option"
  metadata :: "rat option"
  now :: int
  created :: int

datatype outcome = Skipped | Succeeded | Failed error | Suspended

text \<open>
  The guard of line 51, \<open>!text.trim() || isGenerating\<close>, in the handler of the render
  of the state \<open>st\<close>, which has captured the text and the flag of \<open>st\<close>.
\<close>

definition guard :: "page \<Rightarrow> bool" where
  "guard st = (trim (input_text st) = [] \<or> isGenerating st)"

text \<open>\<open>a || b\<close> on strings and on numbers: \<open>b\<close> when \<open>a\<close> is empty, or zero.\<close>

definition make_request :: "page \<Rightarrow> request" where
  "make_request st =
     \<lparr>req_text = input_text st,
      req_voice = (if voice (voiceSettings st) = [] then js ''rachel'' else voice (voiceSettings st)),
      req_stability = (if stability (voiceSettings st) = 0 then 0.75 else stability (voiceSettings st)),
      req_similarity_boost = (if clarity (voiceSettings st) = 0 then 0.75 else clarity (voiceSettings st))\<rparr>"

text \<open>
  Lines 53 to 100 in that handler, up to the first \<open>await\<close>: the flag and the progress
  are set, the interval is started and the provider request is issued.
\<close>

definition start_generation :: "page \<Rightarrow> page" where
  "start_generation st =
     st\<lparr>isGenerating := True, generationProgress := 0,
        intervals := Suc (intervals st),
        requests := requests st @ [make_request st]\<rparr>"

text \<open>
  The handler \<open>generateVoice\<close> is a closure that one render creates (\<open>useCallback\<close>
  with the dependencies of line 179): inside it \<open>text\<close>, \<open>voiceSettings\<close> and
  \<open>isGenerating\<close> are the constants that render captured, while the state setters act
  on the current state. A state setter only schedules the next render, so the handler of
  one render keeps its constants however often it is called.
\<close>

record closure =
  c_text :: jsstr
  c_voiceSettings :: VoiceSettings
  c_isGenerating :: bool

definition render :: "page \<Rightarrow> closure" where
  "render st =
     \<lparr>c_text = input_text st, c_voiceSettings = voiceSettings st, c_isGenerating = isGenerating st\<rparr>"

text \<open>Line 51 and lines 79 to 86 inside the closure.\<close>

definition closure_guard :: "closure \<Rightarrow> bool" where
  "closure_guard c = (trim (c_text c) = [] \<or> c_isGenerating c)"

definition closure_request :: "closure \<Rightarrow> request" where
  "closure_request c =
     \<lparr>req_text = c_text c,
      req_voice = (if voice (c_voiceSettings c) = [] then js ''rachel'' else voice (c_voiceSettings c)),
      req_stability = (if stability (c_voiceSettings c) = 0 then 0.75 else stability (c_voiceSettings c)),
      req_similarity_boost = (if clarity (c_voiceSettings c) = 0 then 0.75 else clarity (c_voiceSettings c))\<rparr>"

text \<open>
  One call of the closure \<open>c\<close> in the state \<open>st\<close>, as far as it runs before it first
  suspends (lines 51 to 100): the guard tests the captured constants; past the guard the
  flag and the progress are set, an interval is started and a provider request is issued.
  For the closure of the latest render, \<open>render st\<close>, this is \<open>guard\<close> and
  \<open>start_generation\<close> above.
\<close>

definition invoke :: "closure \<Rightarrow> page \<Rightarrow> page" where
  "invoke c st =
     (if closure_guard c then st
      else st\<lparr>isGenerating := True, generationProgress := 0,
              intervals := Suc (intervals st),
              requests := requests st @ [closure_request c]\<rparr>)"

text \<open>
  The updater of lines 59 to 62, with \<open>u\<close> the value of \<open>Math.random()\<close>, a number from 0
  up to but not including 1. The progress is computed with rationals.
\<close>

definition tick :: "rat \<Rightarrow> rat \<Rightarrow> rat" where
  "tick u prev = (if prev \<ge> 90 then prev else prev + u * 15)"

definition interval_tick :: "rat \<Rightarrow> page \<Rightarrow> page" where
  "interval_tick u st = st\<lparr>generationProgress := tick u (generationProgress st)\<rparr>"

text \<open>The state while the provider call is pending, after the given callbacks of the interval.\<close>

definition awaiting :: "rat list \<Rightarrow> page \<Rightarrow> page" where
  "awaiting us st = fold interval_tick us (start_generation st)"

text \<open>Lines 102 and 103, which run when the provider's response has arrived.\<close>

definition response_arrived :: "page \<Rightarrow> page" where
  "response_arrived st = st\<lparr>intervals := intervals st - 1, generationProgress := 100\<rparr>"

text \<open>The \<open>catch\<close> block (lines 172 to 174) and the \<open>finally\<close> block (lines 175 to 178).\<close>

definition catch_block :: "page \<Rightarrow> page" where
  "catch_block st = st\<lparr>alerts := Suc (alerts st)\<rparr>"

definition finally_block :: "page \<Rightarrow> page" where
  "finally_block st = st\<lparr>isGenerating := False, generationProgress := 0\<rparr>"

text \<open>Lines 159 to 167.\<close>

definition newAudio :: "env \<Rightarrow> jsstr \<Rightarrow> VoiceSettings \<Rightarrow> Blob \<Rightarrow> rat \<Rightarrow> GeneratedAudio" where
  "newAudio e txt vs audioBlob d =
     \<lparr>id' = toString (now e),
      text' = substring0 txt 100 @ (if length txt > 100 then js ''...'' else []),
      voice' = voice vs,
      audioUrl = audioBlob,
      duration = d,
      createdAt = created e,
      settings = vs\<rparr>"

text \<open>Line 170: \<open>[newAudio, ...prev.slice(0, 9)]\<close>.\<close>

definition prepend :: "GeneratedAudio \<Rightarrow> GeneratedAudio list \<Rightarrow> GeneratedAudio list" where
  "prepend a prev = a # take 9 prev"

text \<open>
  The rest of \<open>generateVoice\<close> after the provider call has settled, with the text and the
  settings the invocation captured. When the metadata of the audio never loads, the
  function stays suspended at line 155: neither \<open>catch\<close> nor \<open>finally\<close> runs.
\<close>

definition resume :: "env \<Rightarrow> jsstr \<Rightarrow> VoiceSettings \<Rightarrow> page \<Rightarrow> outcome \<times> page" where
  "resume e txt vs st =
     (case provider e of
        None \<Rightarrow> (Failed NetworkError, finally_block (catch_block st))
      | Some r \<Rightarrow>
          let st1 = response_arrived st in
          if \<not> ok r then (Failed (HttpError (status r)), finally_block (catch_block st1))
          else
            (case decode_main (fetch e) r of
               Inl err \<Rightarrow> (Failed err, finally_block (catch_block st1))
             | Inr audioBlob \<Rightarrow>
                 (case metadata e of
                    None \<Rightarrow> (Suspended, st1)
                  | Some d \<Rightarrow>
                      let a = newAudio e txt vs audioBlob d in
                      (Succeeded,
                       finally_block
                         (st1\<lparr>currentAudio := Some a,
                              audioHistory := prepend a (audioHistory st1)\<rparr>)))))"

text \<open>
  One whole run of \<open>generateVoice\<close> (lines 50 to 179), called once as the handler of
  the render of the state \<open>st\<close>.
\<close>

definition generateVoice :: "env \<Rightarrow> page \<Rightarrow> outcome \<times> page" where
  "generateVoice e st =
     (if guard st then (Skipped, st)
      else resume e (input_text st) (voiceSettings st) (awaiting (randoms e) st))"

text \<open>A session: the user sets the text and invokes the generation, time after time.\<close>

definition session_step :: "page \<Rightarrow> jsstr \<times> env \<Rightarrow> page" where
  "session_step st x = snd (generateVoice (snd x) (st\<lparr>input_text := fst x\<rparr>))"

definition session :: "(jsstr \<times> env) list \<Rightarrow> page" where
  "session xs = foldl session_step initial_page xs"

text \<open>The entries a session creates, in the order of their creation.\<close>

definition generated :: "page \<Rightarrow> jsstr \<times> env \<Rightarrow> GeneratedAudio list" where
  "generated st x =
     (case generateVoice (snd x) (st\<lparr>input_text := fst x\<rparr>) of
        (Succeeded, st') \<Rightarrow> (case currentAudio st' of None \<Rightarrow> [] | Some a \<Rightarrow> [a])
      | (other, st') \<Rightarrow> [])"

fun created_from :: "page \<Rightarrow> (jsstr \<times> env) list \<Rightarrow> GeneratedAudio list" where
  "created_from st [] = []"
| "created_from st (x # xs) = generated st x @ created_from (session_step st x) xs"

definition session_log :: "(jsstr \<times> env) list \<Rightarrow> GeneratedAudio list" where
  "session_log xs = created_from initial_page xs"

text \<open>The history after the given entries were generated in this order, from an empty history.\<close>

definition history_after :: "GeneratedAudio list \<Rightarrow> GeneratedAudio list" where
  "history_after gens = fold prepend gens []"


section \<open>Concrete inputs\<close>

text \<open>A provider response with an audio content type and a three-byte body.\<close>

definition demo_response :: response where
  "demo_response =
     \<lparr>ok = True, status = 200, content_type = Some (js ''audio/mpeg''),
      json_body = None, blob_body = Some \<lparr>bytes = [73, 68, 51], mime = js ''audio/mpeg''\<rparr>\<rparr>"

text \<open>An environment in which the generation succeeds at clock reading \<open>t\<close>.\<close>

definition demo_env :: "int \<Rightarrow> env" where
  "demo_env t = \<lparr>randoms = [1 / 2], provider = Some demo_response, fetch = (\<lambda>u. None),
             metadata = Some 2, now = t, created = t\<rparr>"

definition demo_audio :: "int \<Rightarrow> GeneratedAudio" where
  "demo_audio t = newAudio (demo_env t) (js ''hi'') (voiceSettings initial_page)
      \<lparr>bytes = [73, 68, 51], mime = js ''audio/mpeg''\<rparr> 2"

text \<open>Eleven generations of the text "hi", at the clock readings 1 to 11.\<close>

definition eleven :: "(jsstr \<times> env) list" where
  "eleven = map (\<lambda>t. (js ''hi'', demo_env t)) [1, 2, 3, 4, 5, 6, 7, 8, 9, 10, 11]"

text \<open>An environment in which the provider call fails in the network.\<close>

definition offline_env :: env where
  "offline_env = \<lparr>randoms = [1 / 2], provider = None, fetch = (\<lambda>u. None),
             metadata = None, now = 5, created = 5\<rparr>"

text \<open>A response of an unrecognized content type with an empty body.\<close>

definition empty_response :: response where
  "empty_response =
     \<lparr>ok = True, status = 200, content_type = Some (js ''text/plain''),
      json_body = None, blob_body = Some \<lparr>bytes = [], mime = js ''text/plain''\<rparr>\<rparr>"

text \<open>The initial page with the text "hi", and the same page with two entries in its history.\<close>

definition hi_page :: page where
  "hi_page = initial_page\<lparr>input_text := js ''hi''\<rparr>"

definition history_page :: page where
  "history_page = hi_page\<lparr>currentAudio := Some (demo_audio 1), audioHistory := [demo_audio 2, demo_audio 1]\<rparr>"

text \<open>The initial page with a text of 150 letters \<open>a\<close>.\<close>

definition long_page :: page where
  "long_page = initial_page\<lparr>input_text := replicate 150 97\<rparr>"

text \<open>The number a string of decimal digits stands for.\<close>

definition undigits :: "jsstr \<Rightarrow> nat" where
  "undigits s = foldl (\<lambda>a c. 10 * a + (c - 48)) 0 s"

text \<open>Two generations, of the texts "hi" and "yo", at the same reading of the clock.\<close>

definition same_ms :: "(jsstr \<times> env) list" where
  "same_ms = [(js ''hi'', demo_env 1757789650147), (js ''yo'', demo_env 1757789650147)]"

text \<open>A chat-completion envelope around a message content, and the JSON response that carries it.\<close>

definition envelope :: "jsstr \<Rightarrow> json" where
  "envelope content =
     JObj [(js ''choices'', JArr [JObj [(js ''message'', JObj [(js ''content'', JStr content)])]])]"

definition json_response :: "jsstr \<Rightarrow> response" where
  "json_response content =
     \<lparr>ok = True, status = 200, content_type = Some (js ''application/json''),
      json_body = Some (envelope content), blob_body = None\<rparr>"

text \<open>A network on which every indirect fetch rejects, and one that answers 404 with a page.\<close>

definition no_network :: "jsstr \<Rightarrow> response option" where
  "no_network url = None"

definition not_found_network :: "jsstr \<Rightarrow> response option" where
  "not_found_network url =
     Some \<lparr>ok = False, status = 404, content_type = Some (js ''text/html''),
           json_body = None, blob_body = Some \<lparr>bytes = [60], mime = js ''text/html''\<rparr>\<rparr>"

text \<open>The substring after the first comma (code unit 44) of a string.\<close>

definition after_first_comma :: "jsstr \<Rightarrow> jsstr" where
  "after_first_comma m = tl (dropWhile (\<lambda>c. c \<noteq> 44) m)"

text \<open>The message content of a JSON response, when the envelope carries a string.\<close>

definition message_string :: "response \<Rightarrow> jsstr option" where
  "message_string r =
     (case json_body r of
        None \<Rightarrow> None
      | Some j \<Rightarrow>
          (case envelope_message j of
             Some (Some (JStr m)) \<Rightarrow> Some m
           | _ \<Rightarrow> None))"

text \<open>A network that answers every indirect fetch with status 502 and a body that cannot be read.\<close>

definition unreadable_network :: "jsstr \<Rightarrow> response option" where
  "unreadable_network url =
     Some \<lparr>ok = False, status = 502, content_type = None, json_body = None, blob_body = None\<rparr>"

text \<open>The initial page with a text of a space, a tab and a line feed.\<close>

definition blank_page :: page where
  "blank_page = initial_page\<lparr>input_text := [32, 9, 10]\<rparr>"

section \<open>Facts about one generation\<close>

lemma awaiting_fields:
  "isGenerating (awaiting us st) = True"
  "currentAudio (awaiting us st) = currentAudio st"
  "audioHistory (awaiting us st) = audioHistory st"
  "requests (awaiting us st) = requests st @ [make_request st]"
  "intervals (awaiting us st) = Suc (intervals st)"
  "alerts (awaiting us st) = alerts st"
proof -
  have f: "isGenerating (fold interval_tick us s) = isGenerating s
      \<and> currentAudio (fold interval_tick us s) = currentAudio s
      \<and> audioHistory (fold interval_tick us s) = audioHistory s
      \<and> requests (fold interval_tick us s) = requests s
      \<and> intervals (fold interval_tick us s) = intervals s
      \<and> alerts (fold interval_tick us s) = alerts s" for s
    by (induction us arbitrary: s) (simp_all add: interval_tick_def)
  show "isGenerating (awaiting us st) = True"
    "currentAudio (awaiting us st) = currentAudio st"
    "audioHistory (awaiting us st) = audioHistory st"
    "requests (awaiting us st) = requests st @ [make_request st]"
    "intervals (awaiting us st) = Suc (intervals st)"
    "alerts (awaiting us st) = alerts st"
    by (simp_all add: awaiting_def f start_generation_def)
qed

lemma generateVoice_skipped: "guard st \<Longrightarrow> generateVoice e st = (Skipped, st)"
  by (simp add: generateVoice_def)

lemma resume_failed:
  "resume e txt vs st = (Failed err, st') \<Longrightarrow>
     audioHistory st' = audioHistory st \<and> currentAudio st' = currentAudio st \<and>
     isGenerating st' = False \<and> generationProgress st' = 0"
  by (auto simp: resume_def Let_def finally_block_def catch_block_def response_arrived_def
      split: option.splits sum.splits if_splits)

lemma resume_succeeded:
  "resume e txt vs st = (Succeeded, st') \<Longrightarrow>
     \<exists>b d. currentAudio st' = Some (newAudio e txt vs b d) \<and>
       audioHistory st' = prepend (newAudio e txt vs b d) (audioHistory st) \<and>
       isGenerating st' = False \<and> generationProgress st' = 0 \<and>
       intervals st' = intervals st - 1 \<and> decode_main (fetch e) (the (provider e)) = Inr b"
  by (auto simp: resume_def Let_def finally_block_def catch_block_def response_arrived_def
      split: option.splits sum.splits if_splits)

lemma resume_suspended:
  "resume e txt vs st = (Suspended, st') \<Longrightarrow>
       audioHistory st' = audioHistory st \<and> currentAudio st' = currentAudio st"
  by (auto simp: resume_def Let_def finally_block_def catch_block_def response_arrived_def
      split: option.splits sum.splits if_splits)

lemma resume_not_skipped: "fst (resume e txt vs st) \<noteq> Skipped"
  by (auto simp: resume_def Let_def split: option.splits sum.splits if_splits)


section \<open>The history\<close>

lemma prepend_take: "prepend a h = take 10 (a # h)"
  by (simp add: prepend_def take_Cons')

lemma take_append_take: "take n (xs @ take n ys) = take n (xs @ ys)"
  by (simp add: min_def)

lemma fold_prepend: "length h \<le> 10 \<Longrightarrow> fold prepend gens h = take 10 (rev gens @ h)"
proof (induction gens arbitrary: h)
  case Nil
  then show ?case by simp
next
  case (Cons g gens)
  have "length (prepend g h) \<le> 10"
    by (simp add: prepend_def)
  then have "fold prepend gens (prepend g h) = take 10 (rev gens @ prepend g h)"
    by (rule Cons.IH)
  also have "\<dots> = take 10 (rev gens @ g # h)"
    by (simp only: prepend_take take_append_take)
  finally show ?case by simp
qed

lemma history_after_take: "history_after gens = take 10 (rev gens)"
  using fold_prepend [of "[]" gens] by (simp add: history_after_def)

lemma history_after_snoc: "history_after (gens @ [g]) = g # take 9 (history_after gens)"
  by (simp add: history_after_def prepend_def)

lemma history_after_eleven:
  assumes "length gens = 11"
  shows "history_after gens = rev (tl gens)"
proof -
  have "take 10 (rev gens) = rev (drop 1 gens)"
    using assms by (simp add: take_rev)
  then show ?thesis
    by (simp add: history_after_take drop_Suc)
qed

lemma generateVoice_history:
  "audioHistory (snd (generateVoice e st)) =
     fold prepend
       (case generateVoice e st of
          (Succeeded, st') \<Rightarrow> (case currentAudio st' of None \<Rightarrow> [] | Some a \<Rightarrow> [a])
        | (other, st') \<Rightarrow> [])
       (audioHistory st)"
proof (cases "guard st")
  case True
  then show ?thesis
    by (simp add: generateVoice_skipped)
next
  case False
  obtain out st' where r: "resume e (input_text st) (voiceSettings st) (awaiting (randoms e) st) = (out, st')"
    by (cases "resume e (input_text st) (voiceSettings st) (awaiting (randoms e) st)")
  then have g: "generateVoice e st = (out, st')"
    using False by (simp add: generateVoice_def)
  show ?thesis
  proof (cases out)
    case Skipped
    then show ?thesis using resume_not_skipped [of e "input_text st" "voiceSettings st" "awaiting (randoms e) st"] r
      by simp
  next
    case Succeeded
    then show ?thesis
      using resume_succeeded [of e "input_text st" "voiceSettings st" "awaiting (randoms e) st" st'] r g
      by (auto simp: awaiting_fields)
  next
    case (Failed err)
    then show ?thesis
      using resume_failed [of e "input_text st" "voiceSettings st" "awaiting (randoms e) st" err st'] r g
      by (simp add: awaiting_fields)
  next
    case Suspended
    then show ?thesis
      using resume_suspended [of e "input_text st" "voiceSettings st" "awaiting (randoms e) st" st'] r g
      by (simp add: awaiting_fields)
  qed
qed

lemma session_step_history:
  "audioHistory (session_step st x) = fold prepend (generated st x) (audioHistory st)"
  using generateVoice_history [of "snd x" "st\<lparr>input_text := fst x\<rparr>"]
  by (simp add: session_step_def generated_def)

lemma foldl_session_history:
  "audioHistory (foldl session_step st xs) = fold prepend (created_from st xs) (audioHistory st)"
  by (induction xs arbitrary: st) (simp_all add: session_step_history)

lemma session_history: "audioHistory (session xs) = history_after (session_log xs)"
  using foldl_session_history [of initial_page xs]
  by (simp add: session_def session_log_def history_after_def initial_page_def)

lemma demo_generate:
  assumes "\<not> isGenerating st" "voiceSettings st = voiceSettings initial_page"
  shows "fst (generateVoice (demo_env t) (st\<lparr>input_text := js ''hi''\<rparr>)) = Succeeded"
    and "currentAudio (snd (generateVoice (demo_env t) (st\<lparr>input_text := js ''hi''\<rparr>))) = Some (demo_audio t)"
    and "isGenerating (snd (generateVoice (demo_env t) (st\<lparr>input_text := js ''hi''\<rparr>))) = False"
    and "voiceSettings (snd (generateVoice (demo_env t) (st\<lparr>input_text := js ''hi''\<rparr>))) = voiceSettings initial_page"
  using assms
  by (simp_all add: generateVoice_def guard_def trim_def is_ws_def demo_env_def resume_def
     demo_response_def decode_main_def ct_includes_def startsWith_def read_blob_def awaiting_def
     Let_def demo_audio_def finally_block_def response_arrived_def interval_tick_def start_generation_def)

lemma demo_step:
  assumes "\<not> isGenerating st" "voiceSettings st = voiceSettings initial_page"
  shows "generated st (js ''hi'', demo_env t) = [demo_audio t]"
    and "\<not> isGenerating (session_step st (js ''hi'', demo_env t))"
    and "voiceSettings (session_step st (js ''hi'', demo_env t)) = voiceSettings initial_page"
proof -
  obtain out st' where g: "generateVoice (demo_env t) (st\<lparr>input_text := js ''hi''\<rparr>) = (out, st')"
    by (cases "generateVoice (demo_env t) (st\<lparr>input_text := js ''hi''\<rparr>)")
  then have "out = Succeeded" "currentAudio st' = Some (demo_audio t)" "isGenerating st' = False"
     "voiceSettings st' = voiceSettings initial_page"
    using demo_generate [OF assms, of t] by simp_all
  then show "generated st (js ''hi'', demo_env t) = [demo_audio t]"
    and "\<not> isGenerating (session_step st (js ''hi'', demo_env t))"
    and "voiceSettings (session_step st (js ''hi'', demo_env t)) = voiceSettings initial_page"
    using g by (simp_all add: generated_def session_step_def)
qed

lemma demo_created:
  assumes "\<not> isGenerating st" "voiceSettings st = voiceSettings initial_page"
  shows "created_from st (map (\<lambda>t. (js ''hi'', demo_env t)) ts) = map demo_audio ts"
  using assms
proof (induction ts arbitrary: st)
  case Nil
  then show ?case by simp
next
  case (Cons t ts)
  show ?case
    using demo_step [OF Cons.prems, of t] Cons.IH [of "session_step st (js ''hi'', demo_env t)"]
    by simp
qed

lemma eleven_log: "session_log eleven = map demo_audio [1, 2, 3, 4, 5, 6, 7, 8, 9, 10, 11]"
  unfolding session_log_def eleven_def
  by (rule demo_created) (simp_all add: initial_page_def)

lemma demo_audio_inj: "demo_audio s = demo_audio t \<longleftrightarrow> s = t"
  by (auto simp: demo_audio_def newAudio_def demo_env_def)

lemma succeeded_front:
  assumes "fst (generateVoice e st) = Succeeded"
  shows "\<exists>a. currentAudio (snd (generateVoice e st)) = Some a \<and>
     audioHistory (snd (generateVoice e st)) = a # take 9 (audioHistory st)"
proof -
  have ng: "\<not> guard st"
    using assms by (auto simp: generateVoice_def)
  obtain st' where r: "resume e (input_text st) (voiceSettings st) (awaiting (randoms e) st) = (Succeeded, st')"
    using assms ng by (cases "resume e (input_text st) (voiceSettings st) (awaiting (randoms e) st)")
      (simp add: generateVoice_def)
  have "snd (generateVoice e st) = st'"
    using r ng by (simp add: generateVoice_def)
  then show ?thesis
    using resume_succeeded [OF r] by (auto simp: awaiting_fields prepend_def)
qed

text \<open>
  C1. After every session (any sequence of generations from the initial page, successful or
  not) the history has at most 10 entries; it is the result of inserting the entries of
  the successful generations at the front, one after the other, each insertion keeping
  the 9 newest of the earlier entries (a successful generation puts its entry, which is
  also the current audio, in front of the 9 newest entries); and when 11 entries have been generated, the
  history holds the 11th down to the 2nd, so the 11th is at the front and the 1st is no
  longer in it.
\<close>

theorem history_capacity:
  "length (audioHistory (session xs)) \<le> 10 \<and>
   (fst (generateVoice e st) = Succeeded \<longrightarrow>
      (\<exists>a. currentAudio (snd (generateVoice e st)) = Some a \<and>
         audioHistory (snd (generateVoice e st)) = a # take 9 (audioHistory st))) \<and>
   audioHistory (session xs) = history_after (session_log xs) \<and>
   history_after (gens @ [g]) = g # take 9 (history_after gens) \<and>
   (length (session_log xs) = 11 \<longrightarrow>
      audioHistory (session xs) = rev (tl (session_log xs)) \<and>
      hd (audioHistory (session xs)) = session_log xs ! 10 \<and>
      (distinct (session_log xs) \<longrightarrow> session_log xs ! 0 \<notin> set (audioHistory (session xs))))"
proof -
  have len: "length (audioHistory (session xs)) \<le> 10"
    by (simp add: session_history history_after_take)
  have eleven: "audioHistory (session xs) = rev (tl (session_log xs)) \<and>
      hd (audioHistory (session xs)) = session_log xs ! 10 \<and>
      (distinct (session_log xs) \<longrightarrow> session_log xs ! 0 \<notin> set (audioHistory (session xs)))"
    if l: "length (session_log xs) = 11"
  proof -
    let ?g = "session_log xs"
    have h: "audioHistory (session xs) = rev (tl ?g)"
      using history_after_eleven [OF l] by (simp add: session_history)
    have ne: "tl ?g \<noteq> []"
      using l by (cases ?g) auto
    have "hd (rev (tl ?g)) = last (tl ?g)"
      using ne by (simp add: hd_rev)
    also have "\<dots> = last ?g"
      using ne by (metis last_tl)
    also have "\<dots> = ?g ! 10"
      using l by (cases "session_log xs = []") (simp_all add: last_conv_nth)
    finally have front: "hd (audioHistory (session xs)) = ?g ! 10"
      using h by simp
    have gone: "?g ! 0 \<notin> set (audioHistory (session xs))" if d: "distinct ?g"
    proof -
      obtain a r where ar: "?g = a # r"
        using l by (cases ?g) auto
      then show ?thesis
        using d h by simp
    qed
    show ?thesis
      using h front gone by blast
  qed
  show ?thesis
    using len succeeded_front session_history history_after_snoc eleven by blast
qed

theorem history_capacity_witness:
  "fst (generateVoice (demo_env 1) hi_page) = Succeeded \<and>
   audioHistory (snd (generateVoice (demo_env 1) hi_page)) = [demo_audio 1] \<and>
   length (session_log eleven) = 11 \<and> distinct (session_log eleven) \<and>
   length (audioHistory (session eleven)) = 10 \<and>
   audioHistory (session eleven) = map demo_audio [11, 10, 9, 8, 7, 6, 5, 4, 3, 2] \<and>
   hd (audioHistory (session eleven)) = demo_audio 11 \<and>
   demo_audio 1 \<notin> set (audioHistory (session eleven))"
proof -
  have l: "length (session_log eleven) = 11"
    by (simp add: eleven_log)
  have d: "distinct (session_log eleven)"
    by (simp add: eleven_log demo_audio_inj)
  have "audioHistory (session eleven) = rev (tl (session_log eleven))"
    and "hd (audioHistory (session eleven)) = session_log eleven ! 10"
    and "session_log eleven ! 0 \<notin> set (audioHistory (session eleven))"
    using history_capacity [where xs = eleven and gens = "[]" and g = "demo_audio 1"
        and e = "demo_env 1" and st = hi_page] l d by blast+
  moreover have s: "fst (generateVoice (demo_env 1) hi_page) = Succeeded"
    and c: "currentAudio (snd (generateVoice (demo_env 1) hi_page)) = Some (demo_audio 1)"
    unfolding hi_page_def by (rule demo_generate; simp add: initial_page_def)+
  moreover have "audioHistory (snd (generateVoice (demo_env 1) hi_page)) = [demo_audio 1]"
  proof -
    obtain a where "currentAudio (snd (generateVoice (demo_env 1) hi_page)) = Some a"
      and "audioHistory (snd (generateVoice (demo_env 1) hi_page)) = a # take 9 (audioHistory hi_page)"
      using history_capacity [where xs = eleven and gens = "[]" and g = "demo_audio 1"
        and e = "demo_env 1" and st = hi_page] s by blast
    then show ?thesis
      using c by (simp add: hi_page_def initial_page_def)
  qed
  ultimately show ?thesis
    using l d by (simp add: eleven_log)
qed

section \<open>Truncation of the stored text\<close>

text \<open>
  C8. The text stored in the GeneratedAudio of a successful generation is the whole input
  text when the text has at most 100 code units, and its first 100 code units followed
  by three full stops when it is longer; a text of 150 code units is stored as its first
  100 code units plus "...".
\<close>

theorem stored_text_truncation:
  "fst (generateVoice e st) = Succeeded \<longrightarrow>
     (\<exists>a. currentAudio (snd (generateVoice e st)) = Some a \<and>
        (length (input_text st) \<le> 100 \<longrightarrow> text' a = input_text st) \<and>
        (length (input_text st) > 100 \<longrightarrow> text' a = take 100 (input_text st) @ js ''...'') \<and>
        (length (input_text st) = 150 \<longrightarrow>
           text' a = take 100 (input_text st) @ js ''...'' \<and> length (text' a) = 103))"
proof
  assume s: "fst (generateVoice e st) = Succeeded"
  then have ng: "\<not> guard st"
    by (auto simp: generateVoice_def)
  obtain st' where r: "resume e (input_text st) (voiceSettings st) (awaiting (randoms e) st) = (Succeeded, st')"
    using s ng by (cases "resume e (input_text st) (voiceSettings st) (awaiting (randoms e) st)")
      (simp add: generateVoice_def)
  then obtain b d where "currentAudio st' = Some (newAudio e (input_text st) (voiceSettings st) b d)"
    using resume_succeeded by blast
  moreover have "snd (generateVoice e st) = st'"
    using r ng by (simp add: generateVoice_def)
  ultimately show "\<exists>a. currentAudio (snd (generateVoice e st)) = Some a \<and>
        (length (input_text st) \<le> 100 \<longrightarrow> text' a = input_text st) \<and>
        (length (input_text st) > 100 \<longrightarrow> text' a = take 100 (input_text st) @ js ''...'') \<and>
        (length (input_text st) = 150 \<longrightarrow>
           text' a = take 100 (input_text st) @ js ''...'' \<and> length (text' a) = 103)"
    by (simp add: newAudio_def substring0_def)
qed

section \<open>The guard of the generation\<close>

lemma trim_empty_iff: "trim t = [] \<longleftrightarrow> (\<forall>c\<in>set t. is_ws c)"
proof
  let ?d = "dropWhile is_ws t"
  assume "trim t = []"
  then have all: "\<forall>c\<in>set ?d. is_ws c"
    by (simp add: trim_def dropWhile_eq_Nil_conv)
  have "?d = []"
  proof (rule ccontr)
    assume ne: "?d \<noteq> []"
    then have "\<not> is_ws (hd ?d)"
      by (rule hd_dropWhile)
    moreover have "hd ?d \<in> set ?d"
      using ne by simp
    ultimately show False
      using all by blast
  qed
  then show "\<forall>c\<in>set t. is_ws c"
    by (simp add: dropWhile_eq_Nil_conv)
next
  assume "\<forall>c\<in>set t. is_ws c"
  then have d: "dropWhile is_ws t = []"
    by (simp add: dropWhile_eq_Nil_conv)
  show "trim t = []"
    unfolding trim_def d by simp
qed

text \<open>Called as the handler of the latest render, the closure is the guard and the start above.\<close>

lemma invoke_render: "invoke (render st) st = (if guard st then st else start_generation st)"
  by (simp add: invoke_def render_def closure_guard_def guard_def start_generation_def
      closure_request_def make_request_def)

text \<open>
  A closure whose render saw a blank text or a generation in flight changes nothing and
  issues no request, in whatever state it is called; so does the closure of a render
  that came after an invocation passed the guard.
\<close>

lemma invoke_blocked:
  "(\<forall>u\<in>set (c_text c). is_ws u) \<or> c_isGenerating c \<Longrightarrow> invoke c st = st"
  by (simp add: invoke_def closure_guard_def trim_empty_iff)

lemma invoke_rerendered:
  "invoke (render ((awaiting us st)\<lparr>input_text := t\<rparr>)) ((awaiting us st)\<lparr>input_text := t\<rparr>)
     = (awaiting us st)\<lparr>input_text := t\<rparr>"
  by (rule invoke_blocked) (simp add: render_def awaiting_fields)

text \<open>A closure that passes its guard passes it again: it has captured the flag as false.\<close>

lemma invoke_same_closure:
  "\<not> closure_guard c \<Longrightarrow>
     requests (invoke c (invoke c st)) = requests st @ [closure_request c, closure_request c] \<and>
     intervals (invoke c (invoke c st)) = Suc (Suc (intervals st))"
  by (simp add: invoke_def)

lemma blank_page_blocked:
  "invoke (render blank_page) blank_page = blank_page \<and>
   generateVoice offline_env blank_page = (Skipped, blank_page)"
proof -
  have "\<forall>u\<in>set (input_text blank_page). is_ws u"
    by (simp add: blank_page_def is_ws_def)
  then have "guard blank_page"
    by (simp add: guard_def trim_empty_iff)
  then show ?thesis
    by (simp add: invoke_render generateVoice_def)
qed

text \<open>
  C3 on the code. The guard of line 51 tests the text and the flag that the handler's
  render captured, and \<open>setIsGenerating(true)\<close> changes the flag of the next render
  only. Called twice before React has rendered again, the handler of the page with the
  text "hi" passes its guard both times: the second call issues a second provider
  request and starts a second interval, while the first generation is in flight. The
  handler of a render that follows the first call is stopped by the guard, and one
  request is issued.
\<close>

theorem stale_closure_double_request:
  "render hi_page =
     \<lparr>c_text = js ''hi'', c_voiceSettings = voiceSettings initial_page, c_isGenerating = False\<rparr> \<and>
   isGenerating (invoke (render hi_page) hi_page) \<and>
   length (requests (invoke (render hi_page) hi_page)) = 1 \<and>
   length (requests (invoke (render hi_page) (invoke (render hi_page) hi_page))) = 2 \<and>
   intervals (invoke (render hi_page) (invoke (render hi_page) hi_page)) = 2 \<and>
   length (requests (invoke (render (invoke (render hi_page) hi_page)) (invoke (render hi_page) hi_page))) = 1"
proof -
  have r: "render hi_page =
     \<lparr>c_text = js ''hi'', c_voiceSettings = voiceSettings initial_page, c_isGenerating = False\<rparr>"
    by (simp add: render_def hi_page_def initial_page_def)
  have g: "\<not> closure_guard (render hi_page)"
    unfolding r by (simp add: closure_guard_def trim_def is_ws_def)
  have q: "requests hi_page = []" "intervals hi_page = 0"
    by (simp_all add: hi_page_def initial_page_def)
  have one: "isGenerating (invoke (render hi_page) hi_page)"
    "length (requests (invoke (render hi_page) hi_page)) = 1"
    using g q by (simp_all add: invoke_def)
  have two: "length (requests (invoke (render hi_page) (invoke (render hi_page) hi_page))) = 2"
    "intervals (invoke (render hi_page) (invoke (render hi_page) hi_page)) = 2"
    using invoke_same_closure [OF g, of hi_page] q by simp_all
  have "closure_guard (render (invoke (render hi_page) hi_page))"
    using one by (simp add: closure_guard_def render_def)
  then have "invoke (render (invoke (render hi_page) hi_page)) (invoke (render hi_page) hi_page)
      = invoke (render hi_page) hi_page"
    by (simp add: invoke_def)
  then show ?thesis
    using r one two by simp
qed

section \<open>Failed generations\<close>

text \<open>
  C5. A generation that fails (the provider call rejects, the response has an error
  status, or the decoding fails) creates no GeneratedAudio: the history and the
  current-audio slot are what they were before the attempt. Each of the three kinds of
  failure does end the generation as failed.
\<close>

theorem failure_leaves_history:
  "(fst (generateVoice e st) = Failed err \<longrightarrow>
      audioHistory (snd (generateVoice e st)) = audioHistory st \<and>
      currentAudio (snd (generateVoice e st)) = currentAudio st \<and>
      generated st (input_text st, e) = []) \<and>
   (\<not> guard st \<and> provider e = None \<longrightarrow> fst (generateVoice e st) = Failed NetworkError) \<and>
   (\<not> guard st \<and> provider e = Some r \<and> \<not> ok r \<longrightarrow>
      fst (generateVoice e st) = Failed (HttpError (status r))) \<and>
   (\<not> guard st \<and> provider e = Some r \<and> ok r \<and> decode_main (fetch e) r = Inl err \<longrightarrow>
      fst (generateVoice e st) = Failed err)"
proof -
  have a: "audioHistory (snd (generateVoice e st)) = audioHistory st \<and>
      currentAudio (snd (generateVoice e st)) = currentAudio st \<and>
      generated st (input_text st, e) = []"
    if f: "fst (generateVoice e st) = Failed err"
  proof -
    have ng: "\<not> guard st"
      using f by (auto simp: generateVoice_def)
    obtain st' where r: "resume e (input_text st) (voiceSettings st) (awaiting (randoms e) st) = (Failed err, st')"
      using f ng by (cases "resume e (input_text st) (voiceSettings st) (awaiting (randoms e) st)")
        (simp add: generateVoice_def)
    have g: "generateVoice e st = (Failed err, st')"
      using r ng by (simp add: generateVoice_def)
    show ?thesis
      using resume_failed [OF r] g by (simp add: awaiting_fields generated_def)
  qed
  have b: "fst (generateVoice e st) = Failed NetworkError" if "\<not> guard st \<and> provider e = None"
    using that by (simp add: generateVoice_def resume_def)
  have c: "fst (generateVoice e st) = Failed (HttpError (status r))"
    if "\<not> guard st \<and> provider e = Some r \<and> \<not> ok r"
    using that by (simp add: generateVoice_def resume_def Let_def)
  have d: "fst (generateVoice e st) = Failed err"
    if "\<not> guard st \<and> provider e = Some r \<and> ok r \<and> decode_main (fetch e) r = Inl err"
    using that by (simp add: generateVoice_def resume_def Let_def)
  show ?thesis
    using a b c d by blast
qed

theorem failure_leaves_history_witness:
  "fst (generateVoice offline_env history_page) = Failed NetworkError \<and>
   audioHistory (snd (generateVoice offline_env history_page)) = [demo_audio 2, demo_audio 1] \<and>
   currentAudio (snd (generateVoice offline_env history_page)) = Some (demo_audio 1) \<and>
   fst (generateVoice (demo_env 3\<lparr>provider := Some (demo_response\<lparr>ok := False, status := 500\<rparr>)\<rparr>) history_page)
     = Failed (HttpError 500) \<and>
   fst (generateVoice (demo_env 3\<lparr>provider := Some empty_response\<rparr>) history_page) = Failed EmptyResponse \<and>
   audioHistory (snd (generateVoice (demo_env 3\<lparr>provider := Some empty_response\<rparr>) history_page))
     = [demo_audio 2, demo_audio 1]"
proof -
  have g: "\<not> guard history_page"
    by (simp add: guard_def history_page_def hi_page_def initial_page_def trim_def is_ws_def)
  have p: "provider offline_env = None"
    by (simp add: offline_env_def)
  have h: "audioHistory history_page = [demo_audio 2, demo_audio 1]"
    "currentAudio history_page = Some (demo_audio 1)"
    by (simp_all add: history_page_def)
  have d: "decode_main (fetch (demo_env 3\<lparr>provider := Some empty_response\<rparr>)) empty_response = Inl EmptyResponse"
    by (simp add: decode_main_def empty_response_def ct_includes_def startsWith_def read_blob_def)
  have n: "fst (generateVoice offline_env history_page) = Failed NetworkError"
    using failure_leaves_history [where e = offline_env and st = history_page and err = NetworkError] g p by blast
  have e: "fst (generateVoice (demo_env 3\<lparr>provider := Some empty_response\<rparr>) history_page) = Failed EmptyResponse"
    using failure_leaves_history [where e = "demo_env 3\<lparr>provider := Some empty_response\<rparr>" and st = history_page
        and err = EmptyResponse and r = empty_response] g d
    by (simp add: empty_response_def)
  have s: "fst (generateVoice (demo_env 3\<lparr>provider := Some (demo_response\<lparr>ok := False, status := 500\<rparr>)\<rparr>) history_page)
     = Failed (HttpError 500)"
    using failure_leaves_history [where e = "demo_env 3\<lparr>provider := Some (demo_response\<lparr>ok := False, status := 500\<rparr>)\<rparr>"
        and st = history_page and r = "demo_response\<lparr>ok := False, status := 500\<rparr>"] g
    by simp
  show ?thesis
    using failure_leaves_history [where e = offline_env and st = history_page and err = NetworkError] n
      failure_leaves_history [where e = "demo_env 3\<lparr>provider := Some empty_response\<rparr>" and st = history_page
        and err = EmptyResponse] e
      s h
    by simp
qed

section \<open>A short and a long text\<close>

lemma demo_succeeds:
  assumes "\<not> guard st"
  shows "fst (generateVoice (demo_env t) st) = Succeeded"
  using assms
  by (simp add: generateVoice_def demo_env_def resume_def
     demo_response_def decode_main_def ct_includes_def startsWith_def read_blob_def Let_def)

theorem stored_text_truncation_witness:
  "fst (generateVoice (demo_env 1) hi_page) = Succeeded \<and>
   (\<exists>a. currentAudio (snd (generateVoice (demo_env 1) hi_page)) = Some a \<and> text' a = js ''hi'') \<and>
   fst (generateVoice (demo_env 1) long_page) = Succeeded \<and>
   length (input_text long_page) = 150 \<and>
   (\<exists>a. currentAudio (snd (generateVoice (demo_env 1) long_page)) = Some a \<and>
      text' a = replicate 100 97 @ js ''...'' \<and> length (text' a) = 103)"
proof -
  have g1: "\<not> guard hi_page"
    by (simp add: guard_def hi_page_def initial_page_def trim_def is_ws_def)
  have g2: "\<not> guard long_page"
    by (simp add: guard_def long_page_def initial_page_def trim_empty_iff is_ws_def)
  have t1: "input_text hi_page = js ''hi''"
    by (simp add: hi_page_def)
  have t2: "input_text long_page = replicate 150 97"
    by (simp add: long_page_def)
  show ?thesis
    using stored_text_truncation [of "demo_env 1" hi_page] demo_succeeds [OF g1, of 1]
      stored_text_truncation [of "demo_env 1" long_page] demo_succeeds [OF g2, of 1]
    by (simp add: t1 t2)
qed

section \<open>Word count\<close>

lemma count_starts_run:
  "\<forall>c\<in>set p. \<not> is_ws c \<Longrightarrow> p \<noteq> [] \<Longrightarrow>
   count_starts b (p @ q) = (if b then 1 else 0) + count_starts False q"
proof (induction p arbitrary: b)
  case Nil
  then show ?case by simp
next
  case (Cons a p)
  show ?case
  proof (cases "p = []")
    case True
    with Cons.prems show ?thesis by simp
  next
    case False
    with Cons show ?thesis by simp
  qed
qed

lemma count_starts_skip_ws:
  "count_starts True (dropWhile is_ws r) = count_starts True r"
  by (induction r) auto

lemma count_starts_trailing_ws:
  "\<forall>c\<in>set w. is_ws c \<Longrightarrow> count_starts b (s @ w) = count_starts b s"
proof (induction s arbitrary: b)
  case Nil
  from Nil show ?case by (induction w arbitrary: b) auto
next
  case (Cons a s)
  then show ?case by simp
qed

lemma count_starts_trim: "count_starts True (trim s) = count_starts True s"
proof -
  let ?d = "dropWhile is_ws s"
  have split: "?d = rev (dropWhile is_ws (rev ?d)) @ rev (takeWhile is_ws (rev ?d))"
    by (metis rev_append rev_rev_ident takeWhile_dropWhile_id)
  have ws: "\<forall>c\<in>set (rev (takeWhile is_ws (rev ?d))). is_ws c"
    by (auto dest: set_takeWhileD)
  have "count_starts True (trim s) = count_starts True (rev (dropWhile is_ws (rev ?d)))"
    by (simp add: trim_def)
  also have "\<dots> = count_starts True (rev (dropWhile is_ws (rev ?d)) @ rev (takeWhile is_ws (rev ?d)))"
    using count_starts_trailing_ws [OF ws] by simp
  also have "\<dots> = count_starts True ?d"
    using split by simp
  also have "\<dots> = count_starts True s"
    by (rule count_starts_skip_ws)
  finally show ?thesis .
qed

lemma count_starts_no_ws:
  "\<forall>c\<in>set s. \<not> is_ws c \<Longrightarrow> count_starts True s = (if s = [] then 0 else 1)"
  using count_starts_run [of s True "[]"] by (cases "s = []") auto

lemma split_ws_count:
  "length (filter (\<lambda>word. length word > 0) (split_ws s)) = count_starts True s"
proof (induction s rule: split_ws.induct)
  case (1 s)
  let ?p = "takeWhile (\<lambda>c. \<not> is_ws c) s"
  show ?case
  proof (cases "dropWhile (\<lambda>c. \<not> is_ws c) s")
    case Nil
    then have "\<forall>c\<in>set s. \<not> is_ws c"
      by (simp add: dropWhile_eq_Nil_conv)
    then have "count_starts True s = (if s = [] then 0 else 1)"
      by (rule count_starts_no_ws)
    moreover have "split_ws s = [s]"
      by (subst split_ws.simps) (simp only: Nil list.case)
    ultimately show ?thesis by simp
  next
    case (Cons x r)
    have sp: "split_ws s = ?p # split_ws (dropWhile is_ws r)"
      by (subst split_ws.simps) (simp only: Cons list.case)
    have s_eq: "s = ?p @ x # r"
      using Cons by (metis takeWhile_dropWhile_id)
    have wsx: "is_ws x"
      using Cons by (metis hd_dropWhile list.sel(1) list.distinct(1))
    have nws: "\<forall>c\<in>set ?p. \<not> is_ws c"
      by (auto dest: set_takeWhileD)
    have ih: "length (filter (\<lambda>word. length word > 0) (split_ws (dropWhile is_ws r)))
               = count_starts True (dropWhile is_ws r)"
      using "1.IH" [OF Cons] .
    have "count_starts True (?p @ x # r) = (if ?p = [] then 0 else 1) + count_starts True r"
    proof (cases "?p = []")
      case True
      then show ?thesis using wsx by simp
    next
      case False
      then show ?thesis
        using count_starts_run [OF nws False, of True "x # r"] wsx by simp
    qed
    then have "count_starts True s = (if ?p = [] then 0 else 1) + count_starts True r"
      using s_eq by simp
    then show ?thesis
      using sp ih count_starts_skip_ws [of r] by simp
  qed
qed

lemma ceil_2_5: "\<lceil>(of_nat n :: rat) / 2.5\<rceil> = (2 * int n + 4) div 5"
proof -
  have eq: "(of_nat n :: rat) / 2.5 = of_int (2 * int n) / of_int 5"
    by (simp add: field_simps)
  have "\<lceil>(of_int (2 * int n) :: rat) / of_int 5\<rceil> = - ((- (2 * int n)) div 5)"
    by (rule ceiling_divide_eq_div)
  also have "\<dots> = (2 * int n + 4) div 5"
    by presburger
  finally show ?thesis
    unfolding eq .
qed

text \<open>
  C10. For every text, the word count the page computes (trim, split at runs of
  whitespace, keep the non-empty pieces) is the number of whitespace-separated non-empty
  tokens of the text, counted independently as the number of places where a run of
  non-whitespace code units starts; and the estimated duration is the ceiling of the word
  count divided by 2.5, that is \<open>(2 * wordCount + 4) div 5\<close>.
\<close>

theorem wordCount_tokens:
  "wordCount t = token_count t \<and>
   estimatedDuration t = \<lceil>(of_nat (token_count t) :: rat) / 2.5\<rceil> \<and>
   estimatedDuration t = (2 * int (token_count t) + 4) div 5"
proof -
  have wc: "wordCount t = token_count t"
    unfolding wordCount_def token_count_def
    by (simp only: split_ws_count count_starts_trim)
  have ed: "estimatedDuration t = \<lceil>(of_nat (token_count t) :: rat) / 2.5\<rceil>"
    unfolding estimatedDuration_def wc ..
  show ?thesis
    using wc ed ceil_2_5 [of "token_count t"] by (simp only: simp_thms)
qed

text \<open>The text "  hello   world  foo " has three words and an estimated duration of two seconds.\<close>

theorem wordCount_tokens_witness:
  "wordCount (js ''  hello   world  foo '') = 3 \<and> estimatedDuration (js ''  hello   world  foo '') = 2"
  using wordCount_tokens [of "js ''  hello   world  foo ''"]
  by (simp add: token_count_def is_ws_def)

section \<open>Identifiers\<close>

lemma undigits_digits: "undigits (digits n) = n"
proof (induction n rule: digits.induct)
  case (1 n)
  show ?case
  proof (cases "n < 10")
    case True
    then show ?thesis
      by (subst digits.simps) (simp add: undigits_def)
  next
    case False
    then have "undigits (digits n) = 10 * undigits (digits (n div 10)) + n mod 10"
      by (subst digits.simps) (simp add: undigits_def)
    then show ?thesis
      using "1.IH" False by simp
  qed
qed

lemma digits_inj: "digits m = digits n \<Longrightarrow> m = n"
  by (metis undigits_digits)

lemma digits_ge_48: "\<forall>c\<in>set (digits n). 48 \<le> c"
proof (induction n rule: digits.induct)
  case (1 n)
  show ?case
  proof (cases "n < 10")
    case True
    then show ?thesis
      by (subst digits.simps) simp
  next
    case False
    then show ?thesis
      using "1.IH" by (subst digits.simps) auto
  qed
qed

lemma digits_not_minus: "digits m \<noteq> 45 # s"
  using digits_ge_48 [of m] by (cases "digits m") auto

lemma toString_inj: "toString i = toString j \<longleftrightarrow> i = j"
proof
  assume e: "toString i = toString j"
  show "i = j"
  proof (cases "i < 0")
    case True
    note i = True
    show ?thesis
    proof (cases "j < 0")
      case True
      then have "digits (nat (- i)) = digits (nat (- j))"
        using e i by (simp add: toString_def)
      then have "nat (- i) = nat (- j)"
        by (rule digits_inj)
      then show ?thesis
        using i True by simp
    next
      case False
      then show ?thesis
        using e i digits_not_minus [of "nat j" "digits (nat (- i))"] by (simp add: toString_def)
    qed
  next
    case False
    note i = False
    show ?thesis
    proof (cases "j < 0")
      case True
      then show ?thesis
        using e i digits_not_minus [of "nat i" "digits (nat (- j))"] by (simp add: toString_def)
    next
      case False
      then have "digits (nat i) = digits (nat j)"
        using e i by (simp add: toString_def)
      then have "nat i = nat j"
        by (rule digits_inj)
      then show ?thesis
        using i False by simp
    qed
  qed
next
  assume "i = j"
  then show "toString i = toString j" by simp
qed

lemma succeeded_entry:
  assumes "fst (generateVoice e st) = Succeeded"
  shows "\<exists>b d. currentAudio (snd (generateVoice e st)) = Some (newAudio e (input_text st) (voiceSettings st) b d)"
proof -
  have ng: "\<not> guard st"
    using assms by (auto simp: generateVoice_def)
  obtain st' where r: "resume e (input_text st) (voiceSettings st) (awaiting (randoms e) st) = (Succeeded, st')"
    using assms ng by (cases "resume e (input_text st) (voiceSettings st) (awaiting (randoms e) st)")
      (simp add: generateVoice_def)
  then obtain b d where "currentAudio st' = Some (newAudio e (input_text st) (voiceSettings st) b d)"
    using resume_succeeded by blast
  moreover have "snd (generateVoice e st) = st'"
    using r ng by (simp add: generateVoice_def)
  ultimately show ?thesis by auto
qed

text \<open>
  C9, as the code has it. The identifier of an entry is the decimal rendering of the
  reading of \<open>Date.now()\<close> at its creation, and the rendering is injective: the entries
  of two successful generations have distinct identifiers exactly when the two readings
  of the clock differ.
\<close>

theorem identifier_is_clock_reading:
  "fst (generateVoice e1 st1) = Succeeded \<and> fst (generateVoice e2 st2) = Succeeded \<longrightarrow>
     (\<exists>a1 a2. currentAudio (snd (generateVoice e1 st1)) = Some a1 \<and>
        currentAudio (snd (generateVoice e2 st2)) = Some a2 \<and>
        id' a1 = toString (now e1) \<and> id' a2 = toString (now e2) \<and>
        (id' a1 = id' a2 \<longleftrightarrow> now e1 = now e2))"
proof
  assume s: "fst (generateVoice e1 st1) = Succeeded \<and> fst (generateVoice e2 st2) = Succeeded"
  obtain b1 d1 where a1: "currentAudio (snd (generateVoice e1 st1)) =
      Some (newAudio e1 (input_text st1) (voiceSettings st1) b1 d1)"
    using s succeeded_entry by blast
  obtain b2 d2 where a2: "currentAudio (snd (generateVoice e2 st2)) =
      Some (newAudio e2 (input_text st2) (voiceSettings st2) b2 d2)"
    using s succeeded_entry by blast
  show "\<exists>a1 a2. currentAudio (snd (generateVoice e1 st1)) = Some a1 \<and>
        currentAudio (snd (generateVoice e2 st2)) = Some a2 \<and>
        id' a1 = toString (now e1) \<and> id' a2 = toString (now e2) \<and>
        (id' a1 = id' a2 \<longleftrightarrow> now e1 = now e2)"
    using a1 a2 by (simp add: newAudio_def toString_inj)
qed

lemma demo_audio_text:
  assumes "\<not> guard st"
  shows "currentAudio (snd (generateVoice (demo_env t) st)) =
     Some (newAudio (demo_env t) (input_text st) (voiceSettings st) \<lparr>bytes = [73, 68, 51], mime = js ''audio/mpeg''\<rparr> 2)"
  using assms
  by (simp add: generateVoice_def demo_env_def resume_def finally_block_def
     demo_response_def decode_main_def ct_includes_def startsWith_def read_blob_def Let_def)

theorem identifier_is_clock_reading_witness:
  "fst (generateVoice (demo_env 1) hi_page) = Succeeded \<and>
   fst (generateVoice (demo_env 2) hi_page) = Succeeded \<and>
   (\<exists>a1 a2. currentAudio (snd (generateVoice (demo_env 1) hi_page)) = Some a1 \<and>
      currentAudio (snd (generateVoice (demo_env 2) hi_page)) = Some a2 \<and>
      id' a1 = toString 1 \<and> id' a2 = toString 2 \<and> id' a1 \<noteq> id' a2)"
proof -
  have g: "\<not> guard hi_page"
    by (simp add: guard_def hi_page_def initial_page_def trim_def is_ws_def)
  have n: "now (demo_env 1) = 1" "now (demo_env 2) = 2"
    by (simp_all add: demo_env_def)
  show ?thesis
    using identifier_is_clock_reading [of "demo_env 1" hi_page "demo_env 2" hi_page]
      demo_succeeds [OF g, of 1] demo_succeeds [OF g, of 2]
    by (simp add: n)
qed

text \<open>
  C9 as stated fails: two generations in one session whose readings of the clock agree
  create two distinct entries, both in the history, with the same identifier.
\<close>

theorem identifier_collision:
  "map id' (audioHistory (session same_ms)) = [js ''1757789650147'', js ''1757789650147''] \<and>
   map text' (audioHistory (session same_ms)) = [js ''yo'', js ''hi''] \<and>
   distinct (audioHistory (session same_ms))"
proof -
  have d: "digits 1757789650147 = js ''1757789650147''"
    by (simp add: digits.simps)
  have g1: "\<not> guard (initial_page\<lparr>input_text := js ''hi''\<rparr>)"
    by (simp add: guard_def initial_page_def trim_def is_ws_def)
  let ?s1 = "snd (generateVoice (demo_env 1757789650147) (initial_page\<lparr>input_text := js ''hi''\<rparr>))"
  have s1: "isGenerating ?s1 = False" "audioHistory ?s1 =
      [newAudio (demo_env 1757789650147) (js ''hi'') (voiceSettings initial_page)
         \<lparr>bytes = [73, 68, 51], mime = js ''audio/mpeg''\<rparr> 2]"
      "voiceSettings ?s1 = voiceSettings initial_page"
    using g1
    by (simp_all add: generateVoice_def demo_env_def resume_def finally_block_def prepend_def
     demo_response_def decode_main_def ct_includes_def startsWith_def read_blob_def Let_def
     awaiting_fields response_arrived_def awaiting_def start_generation_def interval_tick_def initial_page_def)
  have g2: "\<not> guard (?s1\<lparr>input_text := js ''yo''\<rparr>)"
    using s1 by (simp add: guard_def trim_def is_ws_def)
  have "audioHistory (session same_ms) =
      [newAudio (demo_env 1757789650147) (js ''yo'') (voiceSettings initial_page)
         \<lparr>bytes = [73, 68, 51], mime = js ''audio/mpeg''\<rparr> 2,
       newAudio (demo_env 1757789650147) (js ''hi'') (voiceSettings initial_page)
         \<lparr>bytes = [73, 68, 51], mime = js ''audio/mpeg''\<rparr> 2]"
    using generateVoice_history [of "demo_env 1757789650147" "?s1\<lparr>input_text := js ''yo''\<rparr>"]
      demo_succeeds [OF g2, of 1757789650147] demo_audio_text [OF g2, of 1757789650147] s1
    by (simp add: session_def same_ms_def session_step_def prepend_def split: prod.splits)
  then show ?thesis
    by (simp add: newAudio_def demo_env_def toString_def d substring0_def)
qed

section \<open>The simulated progress\<close>

text \<open>
  C2 on the code. The updater tests the bound before it adds, and adds without clamping:
  with \<open>Math.random()\<close> returning 0.9375 seven times, the progress is 84.375 after six
  callbacks and 98.4375 after the seventh, above 90, while the generation still waits
  for the provider. When the response arrives the progress is set to 100.
\<close>

theorem progress_overshoot:
  "\<not> guard hi_page \<and>
   isGenerating (awaiting (replicate 7 (15 / 16)) hi_page) \<and>
   generationProgress (awaiting (replicate 6 (15 / 16)) hi_page) = 675 / 8 \<and>
   generationProgress (awaiting (replicate 7 (15 / 16)) hi_page) = 1575 / 16 \<and>
   90 < generationProgress (awaiting (replicate 7 (15 / 16)) hi_page) \<and>
   generationProgress (response_arrived (awaiting (replicate 7 (15 / 16)) hi_page)) = 100"
proof -
  have g: "\<not> guard hi_page"
    by (simp add: guard_def hi_page_def initial_page_def trim_def is_ws_def)
  have f: "generationProgress (fold interval_tick us st) = fold tick us (generationProgress st)" for us st
    by (induction us arbitrary: st) (simp_all add: interval_tick_def)
  have s: "replicate 7 (15 / 16 :: rat) = [15 / 16, 15 / 16, 15 / 16, 15 / 16, 15 / 16, 15 / 16, 15 / 16]"
    "replicate 6 (15 / 16 :: rat) = [15 / 16, 15 / 16, 15 / 16, 15 / 16, 15 / 16, 15 / 16]"
    by (simp_all add: numeral_eq_Suc)
  have p: "generationProgress (awaiting (replicate 7 (15 / 16)) hi_page) = 1575 / 16"
    "generationProgress (awaiting (replicate 6 (15 / 16)) hi_page) = 675 / 8"
    unfolding awaiting_def f s by (simp_all add: start_generation_def tick_def)
  show ?thesis
    using g p by (simp add: awaiting_fields response_arrived_def)
qed

text \<open>What the updater does keep: a progress below 105.\<close>

lemma tick_below_105: "0 \<le> u \<Longrightarrow> u < 1 \<Longrightarrow> p < 105 \<Longrightarrow> tick u p < 105"
  by (simp add: tick_def)

section \<open>The exits of a generation\<close>

text \<open>
  C4 on the code. When the provider call rejects, line 102 is skipped: the flag and the
  progress are reset, but the interval is still running (one more than before the
  generation), and its next callback raises the progress again.
\<close>

theorem network_failure_leaks_interval:
  "generateVoice offline_env hi_page = (Failed NetworkError, snd (generateVoice offline_env hi_page)) \<and>
   isGenerating (snd (generateVoice offline_env hi_page)) = False \<and>
   generationProgress (snd (generateVoice offline_env hi_page)) = 0 \<and>
   intervals hi_page = 0 \<and>
   intervals (snd (generateVoice offline_env hi_page)) = 1 \<and>
   generationProgress (interval_tick (1 / 2) (snd (generateVoice offline_env hi_page))) = 15 / 2"
proof -
  have g: "\<not> guard hi_page"
    by (simp add: guard_def hi_page_def initial_page_def trim_def is_ws_def)
  have r: "generateVoice offline_env hi_page =
      (Failed NetworkError, finally_block (catch_block (awaiting [1 / 2] hi_page)))"
    using g by (simp add: generateVoice_def resume_def offline_env_def)
  have i: "intervals hi_page = 0"
    by (simp add: hi_page_def initial_page_def)
  show ?thesis
    unfolding r
    by (simp add: finally_block_def catch_block_def awaiting_fields i interval_tick_def tick_def)
qed

text \<open>Every other exit clears the interval and resets the flag and the progress.\<close>

lemma other_exits_clear_interval:
  assumes "\<not> guard st" "provider e = Some r" "fst (generateVoice e st) \<noteq> Suspended"
  shows "intervals (snd (generateVoice e st)) = intervals st \<and>
     isGenerating (snd (generateVoice e st)) = False \<and>
     generationProgress (snd (generateVoice e st)) = 0"
  using assms
  by (auto simp: generateVoice_def resume_def Let_def finally_block_def catch_block_def
      response_arrived_def awaiting_fields split: sum.splits option.splits)

section \<open>The response decoders\<close>

lemma split_on_not_Nil: "split_on sep s \<noteq> []"
  by (induction s) (auto split: list.splits)

lemma split_on_hd: "hd (split_on sep s) = takeWhile (\<lambda>c. c \<noteq> sep) s"
proof (induction s)
  case Nil
  then show ?case by simp
next
  case (Cons c s)
  then show ?case
    using split_on_not_Nil [of sep s] by (cases "split_on sep s") auto
qed

lemma split_on_tl:
  "tl (split_on sep s) =
     (if sep \<in> set s then split_on sep (tl (dropWhile (\<lambda>c. c \<noteq> sep) s)) else [])"
proof (induction s)
  case Nil
  then show ?case by simp
next
  case (Cons c s)
  then show ?case
    using split_on_not_Nil [of sep s] by (cases "split_on sep s") auto
qed

lemma index_one: "index xs (Suc 0) = (case tl xs of [] \<Rightarrow> None | y # ys \<Rightarrow> Some y)"
  by (cases xs) (auto split: list.splits simp: neq_Nil_conv)

lemma split_on_second:
  "index (split_on sep s) (Suc 0) =
     (if sep \<in> set s then Some (takeWhile (\<lambda>c. c \<noteq> sep) (tl (dropWhile (\<lambda>c. c \<noteq> sep) s))) else None)"
proof (cases "sep \<in> set s")
  case True
  let ?r = "tl (dropWhile (\<lambda>c. c \<noteq> sep) s)"
  have t: "tl (split_on sep s) = split_on sep ?r"
    using True by (simp add: split_on_tl)
  obtain y ys where y: "split_on sep ?r = y # ys"
    using split_on_not_Nil [of sep ?r] by (cases "split_on sep ?r") auto
  then have "y = takeWhile (\<lambda>c. c \<noteq> sep) ?r"
    using split_on_hd [of sep ?r] by simp
  then show ?thesis
    using True t y by (simp add: index_one)
next
  case False
  then show ?thesis
    by (simp add: index_one split_on_tl)
qed

lemma b64_value_bound: "b64_value c = Some v \<Longrightarrow> v < 64"
  by (auto simp: b64_value_def split: if_splits)

lemma b64_values_bound: "b64_values s = Some vs \<Longrightarrow> \<forall>v\<in>set vs. v < 64"
proof (induction s arbitrary: vs)
  case Nil
  then show ?case by simp
next
  case (Cons c s)
  then show ?case
    by (auto split: option.splits dest: b64_value_bound)
qed

lemma b64_bytes_bound: "\<forall>v\<in>set vs. v < 64 \<Longrightarrow> \<forall>b\<in>set (b64_bytes vs). b < 256"
proof (induction vs rule: b64_bytes.induct)
  case (1 a b c d rest)
  have "a * 4 + b div 16 < 256" "(b mod 16) * 16 + c div 4 < 256" "(c mod 4) * 64 + d < 256"
    using "1.prems" by auto
  then show ?case
    using 1 by simp
next
  case (2 a b c)
  have "a * 4 + b div 16 < 256" "(b mod 16) * 16 + c div 4 < 256"
    using "2.prems" by auto
  then show ?case by simp
next
  case (3 a b)
  have "a * 4 + b div 16 < 256"
    using "3.prems" by auto
  then show ?case by simp
qed simp_all

lemma atob_bytes: "atob s = Some bs \<Longrightarrow> map (\<lambda>c. c mod 256) bs = bs"
proof -
  assume a: "atob s = Some bs"
  then obtain vs where "b64_values (strip_padding (filter (\<lambda>c. c \<notin> set [9, 10, 12, 13, 32]) s)) = Some vs"
    and "bs = b64_bytes vs"
    by (auto simp: atob_def Let_def split: if_splits)
  then have "\<forall>b\<in>set bs. b < 256"
    using b64_values_bound b64_bytes_bound by blast
  then show ?thesis
    by (simp add: map_idI)
qed

lemma atob_undefined: "atob (js ''undefined'') = None"
  by (simp add: atob_def strip_padding_def)

lemma decode_data_uri_eq:
  "decode_data_uri m =
     (if 44 \<in> set m then
        (case atob (takeWhile (\<lambda>c. c \<noteq> 44) (after_first_comma m)) of
           None \<Rightarrow> Inl InvalidCharacterError
         | Some bs \<Rightarrow> Inr \<lparr>bytes = bs, mime = js ''audio/mpeg''\<rparr>)
      else Inl InvalidCharacterError)"
proof (cases "44 \<in> set m")
  case True
  let ?seg = "takeWhile (\<lambda>c. c \<noteq> 44) (after_first_comma m)"
  have i: "index (split_on 44 m) (Suc 0) = Some ?seg"
    using True by (simp add: split_on_second after_first_comma_def)
  show ?thesis
  proof (cases "atob ?seg")
    case None
    then show ?thesis
      using True i by (simp add: decode_data_uri_def)
  next
    case (Some bs)
    then show ?thesis
      using True i atob_bytes [OF Some] by (simp add: decode_data_uri_def)
  qed
next
  case False
  then have "index (split_on 44 m) (Suc 0) = None"
    by (simp add: split_on_second)
  then show ?thesis
    using False atob_undefined by (simp add: decode_data_uri_def)
qed


lemma count_list_dropWhile:
  "x \<in> set m \<Longrightarrow> count_list m x = Suc (count_list (tl (dropWhile (\<lambda>c. c \<noteq> x) m)) x)"
  by (induction m) auto

lemma one_comma:
  assumes "count_list m 44 = 1"
  shows "takeWhile (\<lambda>c. c \<noteq> 44) (after_first_comma m) = after_first_comma m"
proof -
  have "44 \<in> set m"
    using assms by (metis count_list_0_iff zero_neq_one)
  then have "count_list (after_first_comma m) 44 = 0"
    using assms count_list_dropWhile [of 44 m] by (simp add: after_first_comma_def)
  then have "44 \<notin> set (after_first_comma m)"
    by (simp add: count_list_0_iff)
  then show ?thesis
    by (auto simp: takeWhile_eq_all_conv)
qed

lemma envelope_message_not_null: "envelope_message j = Some x \<Longrightarrow> j \<noteq> JNull"
  by (auto simp: envelope_message_def)

text \<open>
  C7, as the code has it. For a JSON response whose message content begins with
  "data:audio", the decoder hands to \<open>atob\<close> the piece between the first comma and the
  next comma (or the end of the string): the payload is the base64 decoding of that
  piece, with the type audio/mpeg, and the decoding fails when the piece is not base64 or
  when the content has no comma. When the content has exactly one comma, the piece is the
  whole substring after the first comma.
\<close>

theorem data_uri_payload:
  "ct_includes (content_type r) (js ''application/json'') \<and> json_body r = Some j \<and>
   envelope_message j = Some (Some (JStr m)) \<and> startsWith m (js ''data:audio'') \<longrightarrow>
     (44 \<in> set m \<longrightarrow>
        decode_main f r =
          (case atob (takeWhile (\<lambda>c. c \<noteq> 44) (after_first_comma m)) of
             None \<Rightarrow> Inl InvalidCharacterError
           | Some bs \<Rightarrow> Inr \<lparr>bytes = bs, mime = js ''audio/mpeg''\<rparr>)) \<and>
     (44 \<notin> set m \<longrightarrow> decode_main f r = Inl InvalidCharacterError) \<and>
     (count_list m 44 = 1 \<longrightarrow>
        takeWhile (\<lambda>c. c \<noteq> 44) (after_first_comma m) = after_first_comma m)"
proof
  assume h: "ct_includes (content_type r) (js ''application/json'') \<and> json_body r = Some j \<and>
   envelope_message j = Some (Some (JStr m)) \<and> startsWith m (js ''data:audio'')"
  then have nn: "j \<noteq> JNull"
    using envelope_message_not_null by blast
  have "decode_main f r = decode_data_uri m"
    using h nn by (simp add: decode_main_def)
  then show "(44 \<in> set m \<longrightarrow>
        decode_main f r =
          (case atob (takeWhile (\<lambda>c. c \<noteq> 44) (after_first_comma m)) of
             None \<Rightarrow> Inl InvalidCharacterError
           | Some bs \<Rightarrow> Inr \<lparr>bytes = bs, mime = js ''audio/mpeg''\<rparr>)) \<and>
     (44 \<notin> set m \<longrightarrow> decode_main f r = Inl InvalidCharacterError) \<and>
     (count_list m 44 = 1 \<longrightarrow>
        takeWhile (\<lambda>c. c \<noteq> 44) (after_first_comma m) = after_first_comma m)"
    using one_comma [of m] by (simp add: decode_data_uri_eq)
qed

lemma envelope_message_envelope: "envelope_message (envelope m) = Some (Some (JStr m))"
  by (simp add: envelope_message_def envelope_def)

text \<open>The content "data:audio/mpeg;base64,AAAA" yields the base64 decoding of "AAAA", three zero bytes.\<close>

theorem data_uri_payload_witness:
  "decode_main no_network (json_response (js ''data:audio/mpeg;base64,AAAA'')) =
     Inr \<lparr>bytes = [0, 0, 0], mime = js ''audio/mpeg''\<rparr> \<and>
   after_first_comma (js ''data:audio/mpeg;base64,AAAA'') = js ''AAAA'' \<and>
   atob (js ''AAAA'') = Some [0, 0, 0] \<and>
   decode_main no_network (json_response (js ''data:audio'')) = Inl InvalidCharacterError"
proof -
  let ?m = "js ''data:audio/mpeg;base64,AAAA''"
  have c: "ct_includes (content_type (json_response s)) (js ''application/json'')"
    "json_body (json_response s) = Some (envelope s)" for s
    by (simp_all add: json_response_def ct_includes_def startsWith_def)
  have s: "startsWith ?m (js ''data:audio'')" "startsWith (js ''data:audio'') (js ''data:audio'')"
    by (simp_all add: startsWith_def)
  have a: "after_first_comma ?m = js ''AAAA''"
    by (simp add: after_first_comma_def)
  have b: "atob (js ''AAAA'') = Some [0, 0, 0]"
    by (simp add: atob_def strip_padding_def b64_value_def)
  have n: "count_list ?m 44 = 1" "44 \<in> set ?m" "44 \<notin> set (js ''data:audio'')"
    by simp_all
  show ?thesis
    using data_uri_payload [of "json_response ?m" "envelope ?m" ?m no_network]
      data_uri_payload [of "json_response (js ''data:audio'')" "envelope (js ''data:audio'')" "js ''data:audio''" no_network]
      c s n envelope_message_envelope a b
    by simp
qed

text \<open>
  C7 as stated fails on a content with a second comma: the substring after the first
  comma is "AAAA,AAAA", which has no base64 decoding, while the decoder yields the three
  bytes of "AAAA".
\<close>

theorem data_uri_two_commas:
  "decode_main no_network (json_response (js ''data:audio/mpeg;base64,AAAA,AAAA'')) =
     Inr \<lparr>bytes = [0, 0, 0], mime = js ''audio/mpeg''\<rparr> \<and>
   after_first_comma (js ''data:audio/mpeg;base64,AAAA,AAAA'') = js ''AAAA,AAAA'' \<and>
   atob (js ''AAAA,AAAA'') = None"
proof -
  let ?m = "js ''data:audio/mpeg;base64,AAAA,AAAA''"
  have a: "after_first_comma ?m = js ''AAAA,AAAA''"
    by (simp add: after_first_comma_def)
  have b: "atob (js ''AAAA'') = Some [0, 0, 0]"
    by (simp add: atob_def strip_padding_def b64_value_def)
  have n: "atob (js ''AAAA,AAAA'') = None"
    by (simp add: atob_def strip_padding_def b64_value_def)
  have e: "envelope ?m \<noteq> JNull"
    by (simp add: envelope_def)
  have r: "content_type (json_response ?m) = Some (js ''application/json'')"
    "json_body (json_response ?m) = Some (envelope ?m)"
    by (simp_all add: json_response_def)
  have "decode_main no_network (json_response ?m) = decode_data_uri ?m"
    unfolding decode_main_def r
    using e by (simp add: envelope_message_envelope ct_includes_def startsWith_def)
  also have "\<dots> = Inr \<lparr>bytes = [0, 0, 0], mime = js ''audio/mpeg''\<rparr>"
    unfolding decode_data_uri_eq a using b by simp
  finally show ?thesis
    using a n by simp
qed

lemma main_payload_in_preview: "decode_main f r = Inr b \<Longrightarrow> decode_preview f r = Inr (Some b)"
  by (auto simp: decode_main_def decode_preview_def read_blob_def
      split: if_splits option.splits json.splits sum.splits)

lemma main_failure_preview:
  "decode_main f r = Inl e \<Longrightarrow> e \<noteq> EmptyResponse \<Longrightarrow> e \<noteq> IndirectFetchFailed \<Longrightarrow>
     payload_preview f r = None"
  by (auto simp: decode_main_def decode_preview_def read_blob_def payload_preview_def
      split: if_splits option.splits json.splits sum.splits)

lemma empty_response_body:
  "decode_main f r = Inl EmptyResponse \<Longrightarrow>
     \<exists>b. blob_body r = Some b \<and> bytes b = [] \<and> payload_preview f r = Some b"
  by (auto simp: decode_main_def decode_preview_def read_blob_def decode_data_uri_def Let_def
      payload_preview_def split: if_splits option.splits json.splits sum.splits)

lemma indirect_failure_preview:
  "decode_main f r = Inl IndirectFetchFailed \<Longrightarrow>
     \<exists>m a. message_string r = Some m \<and> f m = Some a \<and> \<not> ok a \<and> payload_preview f r = blob_body a"
  by (auto simp: decode_main_def decode_preview_def read_blob_def decode_data_uri_def Let_def
      payload_preview_def message_string_def split: if_splits option.splits json.splits sum.splits)

text \<open>
  C6, as the code has it. Whenever the main decoder yields a payload, the decoding of the
  preview yields the same payload. Where the main decoder fails with its empty-response
  error (an unrecognized content type with a zero-length body) the preview yields that
  empty body as its payload; where the main decoder fails with its indirect-fetch error
  (a non-OK answer to the fetch of the message's URL) the preview yields what reading
  the body of that answer gives, a payload when the body can be read and none when it
  cannot; on every other failure of the main decoder the preview yields no payload.
\<close>

theorem preview_decoding_vs_main:
  "(decode_main f r = Inr b \<longrightarrow> payload_preview f r = Some b) \<and>
   (decode_main f r = Inl EmptyResponse \<longrightarrow>
      (\<exists>b'. blob_body r = Some b' \<and> bytes b' = [] \<and> payload_preview f r = Some b')) \<and>
   (decode_main f r = Inl IndirectFetchFailed \<longrightarrow>
      (\<exists>m a. message_string r = Some m \<and> f m = Some a \<and> \<not> ok a \<and>
         payload_preview f r = blob_body a)) \<and>
   (decode_main f r = Inl e \<and> e \<noteq> EmptyResponse \<and> e \<noteq> IndirectFetchFailed \<longrightarrow>
      payload_preview f r = None)"
proof -
  have a: "payload_preview f r = Some b" if "decode_main f r = Inr b"
    using main_payload_in_preview [OF that] by (simp add: payload_preview_def)
  show ?thesis
    using a empty_response_body indirect_failure_preview main_failure_preview by blast
qed

lemma decode_main_json_string:
  "decode_main f (json_response m) =
     (if startsWith m (js ''data:audio'') then decode_data_uri m
      else if startsWith m (js ''http'') \<or> startsWith m (js ''https'') then
        (case f m of
           None \<Rightarrow> Inl NetworkError
         | Some a \<Rightarrow> if ok a then read_blob a else Inl IndirectFetchFailed)
      else Inl UnexpectedFormat)"
proof -
  have nn: "envelope m \<noteq> JNull"
    by (simp add: envelope_def)
  have r: "content_type (json_response m) = Some (js ''application/json'')"
    "json_body (json_response m) = Some (envelope m)"
    by (simp_all add: json_response_def)
  show ?thesis
    unfolding decode_main_def r
    using nn by (simp add: envelope_message_envelope ct_includes_def startsWith_def)
qed

theorem preview_decoding_vs_main_witness:
  "decode_main no_network demo_response = Inr \<lparr>bytes = [73, 68, 51], mime = js ''audio/mpeg''\<rparr> \<and>
   payload_preview no_network demo_response = Some \<lparr>bytes = [73, 68, 51], mime = js ''audio/mpeg''\<rparr> \<and>
   decode_main no_network empty_response = Inl EmptyResponse \<and>
   payload_preview no_network empty_response = Some \<lparr>bytes = [], mime = js ''text/plain''\<rparr> \<and>
   decode_main not_found_network (json_response (js ''https://x/y.mp3'')) = Inl IndirectFetchFailed \<and>
   payload_preview not_found_network (json_response (js ''https://x/y.mp3'')) =
     Some \<lparr>bytes = [60], mime = js ''text/html''\<rparr> \<and>
   decode_main unreadable_network (json_response (js ''https://x/y.mp3'')) = Inl IndirectFetchFailed \<and>
   payload_preview unreadable_network (json_response (js ''https://x/y.mp3'')) = None \<and>
   decode_main no_network (json_response (js ''hello'')) = Inl UnexpectedFormat \<and>
   payload_preview no_network (json_response (js ''hello'')) = None"
proof -
  let ?b = "\<lparr>bytes = [73, 68, 51], mime = js ''audio/mpeg''\<rparr>"
  let ?r = "json_response (js ''https://x/y.mp3'')"
  have m: "decode_main no_network demo_response = Inr ?b"
    by (simp add: decode_main_def demo_response_def ct_includes_def startsWith_def read_blob_def)
  have e: "decode_main no_network empty_response = Inl EmptyResponse"
    by (simp add: decode_main_def empty_response_def ct_includes_def startsWith_def read_blob_def)
  have i: "decode_main not_found_network ?r = Inl IndirectFetchFailed"
    by (simp add: decode_main_json_string startsWith_def not_found_network_def)
  have u: "decode_main unreadable_network ?r = Inl IndirectFetchFailed"
    by (simp add: decode_main_json_string startsWith_def unreadable_network_def)
  have x: "decode_main no_network (json_response (js ''hello'')) = Inl UnexpectedFormat"
    by (simp add: decode_main_json_string startsWith_def)
  have pm: "payload_preview no_network demo_response = Some ?b"
    using preview_decoding_vs_main [where f = no_network and r = demo_response and b = ?b] m
    by blast
  have pe: "payload_preview no_network empty_response = Some \<lparr>bytes = [], mime = js ''text/plain''\<rparr>"
    using preview_decoding_vs_main [where f = no_network and r = empty_response] e
    by (auto simp: empty_response_def)
  have pi: "payload_preview not_found_network ?r = Some \<lparr>bytes = [60], mime = js ''text/html''\<rparr>"
    using preview_decoding_vs_main [where f = not_found_network and r = ?r] i
    by (auto simp: not_found_network_def)
  have pu: "payload_preview unreadable_network ?r = None"
    using preview_decoding_vs_main [where f = unreadable_network and r = ?r] u
    by (auto simp: unreadable_network_def)
  have px: "payload_preview no_network (json_response (js ''hello'')) = None"
    using preview_decoding_vs_main [where f = no_network and r = "json_response (js ''hello'')"
        and e = UnexpectedFormat] x
    by simp
  show ?thesis
    using m e i u x pm pe pi pu px by simp
qed

text \<open>
  C6 as stated fails: on a response of an unrecognized content type with an empty body
  the main decoder fails and the preview yields the empty payload.
\<close>

theorem preview_accepts_empty_body:
  "payload_main no_network empty_response = None \<and>
   payload_preview no_network empty_response = Some \<lparr>bytes = [], mime = js ''text/plain''\<rparr> \<and>
   payload_main no_network empty_response \<noteq> payload_preview no_network empty_response"
  by (simp add: payload_main_def payload_preview_def decode_main_def decode_preview_def
      empty_response_def ct_includes_def startsWith_def read_blob_def)

end
